theory Spec2Isabelle
  imports Main "HOL-Library.Product_Lexorder"
begin

section \<open>Python strings\<close>

text \<open>
  The hook \<^verbatim>\<open>check_for_xxx.py\<close> works on Python \<^verbatim>\<open>str\<close> values. A \<^verbatim>\<open>str\<close> is
  modelled as a \<^typ>\<open>string\<close> whose characters are the code points below 256; the
  tables of \<^verbatim>\<open>str.isspace\<close>, \<^verbatim>\<open>str.splitlines\<close> and \<^verbatim>\<open>str.lower\<close> are the ones
  CPython uses on that range.
\<close>

definition isspace :: "char \<Rightarrow> bool" where
  \<comment> \<open>\<^verbatim>\<open>str.isspace\<close> on one character\<close>
  "isspace c = (c \<in> set [CHR 0x09, CHR 0x0A, CHR 0x0B, CHR 0x0C, CHR 0x0D,
                          CHR 0x1C, CHR 0x1D, CHR 0x1E, CHR 0x1F, CHR 0x20, CHR 0x85, CHR 0xA0])"

definition strip :: "string \<Rightarrow> string" where
  \<comment> \<open>\<^verbatim>\<open>s.strip()\<close>\<close>
  "strip s = rev (dropWhile isspace (rev (dropWhile isspace s)))"

definition lower_chr :: "char \<Rightarrow> char" where
  "lower_chr c = (let n = of_char c :: nat in
     if (65 \<le> n \<and> n \<le> 90) \<or> (192 \<le> n \<and> n \<le> 222 \<and> n \<noteq> 215)
     then char_of (n + 32) else c)"

definition lower :: "string \<Rightarrow> string" where
  \<comment> \<open>\<^verbatim>\<open>s.lower()\<close>\<close>
  "lower s = map lower_chr s"

definition startswith :: "string \<Rightarrow> string \<Rightarrow> bool" where
  \<comment> \<open>\<^verbatim>\<open>s.startswith(p)\<close>\<close>
  "startswith s p = (take (length p) s = p)"

fun contains :: "string \<Rightarrow> string \<Rightarrow> bool" where
  \<comment> \<open>\<^verbatim>\<open>needle in hay\<close>\<close>
  "contains needle [] = (needle = [])"
| "contains needle (c # cs) = (startswith (c # cs) needle \<or> contains needle cs)"

fun split_chr :: "char \<Rightarrow> string \<Rightarrow> string list" where
  \<comment> \<open>\<^verbatim>\<open>s.split(sep)\<close> for a separator of one character: empty fields are kept\<close>
  "split_chr sep [] = [[]]"
| "split_chr sep (c # cs) =
     (if c = sep then [] # split_chr sep cs
      else (c # hd (split_chr sep cs)) # tl (split_chr sep cs))"

definition is_linebreak :: "char \<Rightarrow> bool" where
  "is_linebreak c = (c \<in> set [CHR 0x0A, CHR 0x0B, CHR 0x0C, CHR 0x0D,
                               CHR 0x1C, CHR 0x1D, CHR 0x1E, CHR 0x85])"

fun splitlines :: "string \<Rightarrow> string list" where
  \<comment> \<open>\<^verbatim>\<open>s.splitlines()\<close>: the line breaks are dropped, CR LF is one break, and no
      empty last line is produced after a final break\<close>
  "splitlines [] = []"
| "splitlines [c] = (if is_linebreak c then [[]] else [[c]])"
| "splitlines (c # d # cs) =
     (if c = CHR 0x0D \<and> d = CHR 0x0A then [] # splitlines cs
      else if is_linebreak c then [] # splitlines (d # cs)
      else (case splitlines (d # cs) of [] \<Rightarrow> [[c]] | l # ls \<Rightarrow> (c # l) # ls))"

function str_nat :: "nat \<Rightarrow> string" where
  \<comment> \<open>the decimal digits of a natural number\<close>
  "str_nat n = (if n < 10 then [char_of (48 + n)]
                else str_nat (n div 10) @ [char_of (48 + n mod 10)])"
  by pat_completeness auto
termination
  by (relation "measure id") auto

declare str_nat.simps [simp del]

definition str_int :: "int \<Rightarrow> string" where
  \<comment> \<open>\<^verbatim>\<open>str(i)\<close>, which is also what \<^verbatim>\<open>'{}'.format(i)\<close> and an f-string print\<close>
  "str_int i = (if i < 0 then CHR ''-'' # str_nat (nat (- i)) else str_nat (nat i))"

datatype error =
  Not_a_unified_diff_header  \<comment> \<open>\<^verbatim>\<open>ValueError("Not a unified-diff header")\<close>\<close>
| Invalid_int_literal        \<comment> \<open>the \<^verbatim>\<open>ValueError\<close> that \<^verbatim>\<open>int()\<close> raises\<close>

definition int_space :: "char \<Rightarrow> bool" where
  \<comment> \<open>the characters \<^verbatim>\<open>int()\<close> skips around a literal\<close>
  "int_space c = (c \<in> set [CHR 0x09, CHR 0x0A, CHR 0x0B, CHR 0x0C, CHR 0x0D,
                           CHR 0x20, CHR 0x85, CHR 0xA0])"

definition is_digit :: "char \<Rightarrow> bool" where
  "is_digit c = (48 \<le> (of_char c :: nat) \<and> (of_char c :: nat) \<le> 57)"

definition digit_val :: "char \<Rightarrow> nat" where
  "digit_val c = of_char c - 48"

fun int_digits :: "bool \<Rightarrow> string \<Rightarrow> nat list option" where
  \<comment> \<open>digits with single underscores between them; the flag says that the
      character before was a digit\<close>
  "int_digits prev [] = (if prev then Some [] else None)"
| "int_digits prev (c # cs) =
     (if is_digit c then map_option ((#) (digit_val c)) (int_digits True cs)
      else if c = CHR ''_'' \<and> prev then int_digits False cs
      else None)"

definition int_max_str_digits :: nat where
  \<comment> \<open>\<^verbatim>\<open>sys.int_info.default_max_str_digits\<close>\<close>
  "int_max_str_digits = 4300"

definition py_int :: "string \<Rightarrow> error + int" where
  \<comment> \<open>\<^verbatim>\<open>int(s)\<close> in base 10: surrounding white space, an optional sign, digits with
      single underscores between them, at most \<^const>\<open>int_max_str_digits\<close> digits\<close>
  "py_int s =
     (let t = rev (dropWhile int_space (rev (dropWhile int_space s)));
          neg = (t \<noteq> [] \<and> hd t = CHR ''-'');
          body = (if t \<noteq> [] \<and> (hd t = CHR ''+'' \<or> hd t = CHR ''-'') then tl t else t)
      in case int_digits False body of
           None \<Rightarrow> Inl Invalid_int_literal
         | Some ds \<Rightarrow>
             if int_max_str_digits < length ds then Inl Invalid_int_literal
             else let v = int (foldl (\<lambda>acc d. 10 * acc + d) 0 ds)
                  in Inr (if neg then - v else v))"

section \<open>The standard library's \<^verbatim>\<open>difflib\<close>\<close>

text \<open>
  \<^verbatim>\<open>collect_errors\<close> calls \<^verbatim>\<open>difflib.unified_diff\<close>. The definitions below follow
  CPython's \<^verbatim>\<open>Lib/difflib.py\<close>: \<^verbatim>\<open>SequenceMatcher(None, a, b)\<close> with its default
  \<^verbatim>\<open>autojunk=True\<close>, \<^verbatim>\<open>find_longest_match\<close>, \<^verbatim>\<open>get_matching_blocks\<close>,
  \<^verbatim>\<open>get_opcodes\<close>, \<^verbatim>\<open>get_grouped_opcodes\<close> and \<^verbatim>\<open>unified_diff\<close>.
\<close>

type_synonym match = "nat \<times> nat \<times> nat"

datatype tag = Replace | Delete | Insert | Equal

type_synonym opcode = "tag \<times> nat \<times> nat \<times> nat \<times> nat"

definition indices_of :: "'a list \<Rightarrow> 'a \<Rightarrow> nat list" where
  "indices_of b x = filter (\<lambda>j. b ! j = x) [0..<length b]"

definition bpopular :: "'a list \<Rightarrow> 'a \<Rightarrow> bool" where
  \<comment> \<open>\<^verbatim>\<open>__chain_b\<close>: with at least 200 elements, an element that occurs more than
      \<^verbatim>\<open>n // 100 + 1\<close> times is popular\<close>
  "bpopular b x = (200 \<le> length b \<and> length b div 100 + 1 < length (indices_of b x))"

definition b2j :: "'a list \<Rightarrow> 'a \<Rightarrow> nat list" where
  \<comment> \<open>\<^verbatim>\<open>self.b2j.get(x, [])\<close> after \<^verbatim>\<open>__chain_b\<close>: the indices of \<open>x\<close> in \<open>b\<close> in
      ascending order, none for a popular element. \<^verbatim>\<open>isjunk\<close> is \<^verbatim>\<open>None\<close>, so
      \<^verbatim>\<open>bjunk\<close> is empty.\<close>
  "b2j b x = (if bpopular b x then [] else indices_of b x)"

fun j2lenget :: "(nat \<rightharpoonup> nat) \<Rightarrow> nat \<Rightarrow> nat" where
  \<comment> \<open>\<^verbatim>\<open>j2len.get(j-1, 0)\<close>; the key \<open>-1\<close> is never in the dictionary\<close>
  "j2lenget j2len 0 = 0"
| "j2lenget j2len (Suc j') = (case j2len j' of None \<Rightarrow> 0 | Some k \<Rightarrow> k)"

fun flm_inner ::
  "(nat \<rightharpoonup> nat) \<Rightarrow> nat \<Rightarrow> nat \<Rightarrow> nat \<Rightarrow> nat list \<Rightarrow> (nat \<rightharpoonup> nat) \<Rightarrow> match
     \<Rightarrow> (nat \<rightharpoonup> nat) \<times> match" where
  \<comment> \<open>the loop \<^verbatim>\<open>for j in b2j.get(a[i], nothing)\<close>; it returns \<^verbatim>\<open>newj2len\<close> and
      \<^verbatim>\<open>(besti, bestj, bestsize)\<close>\<close>
  "flm_inner j2len i blo bhi [] newj2len best = (newj2len, best)"
| "flm_inner j2len i blo bhi (j # js) newj2len (besti, bestj, bestsize) =
     (if j < blo then flm_inner j2len i blo bhi js newj2len (besti, bestj, bestsize)
      else if bhi \<le> j then (newj2len, (besti, bestj, bestsize))
      else let k = j2lenget j2len j + 1 in
        flm_inner j2len i blo bhi js (newj2len(j \<mapsto> k))
          (if bestsize < k then (i + 1 - k, j + 1 - k, k) else (besti, bestj, bestsize)))"

fun flm_outer ::
  "'a list \<Rightarrow> 'a list \<Rightarrow> nat \<Rightarrow> nat \<Rightarrow> nat list \<Rightarrow> (nat \<rightharpoonup> nat) \<Rightarrow> match \<Rightarrow> match" where
  \<comment> \<open>the loop \<^verbatim>\<open>for i in range(alo, ahi)\<close>\<close>
  "flm_outer a b blo bhi [] j2len best = best"
| "flm_outer a b blo bhi (i # is) j2len best =
     (case flm_inner j2len i blo bhi (b2j b (a ! i)) Map.empty best of
        (newj2len, best') \<Rightarrow> flm_outer a b blo bhi is newj2len best')"

function extend_left :: "'a list \<Rightarrow> 'a list \<Rightarrow> nat \<Rightarrow> nat \<Rightarrow> match \<Rightarrow> match" where
  "extend_left a b alo blo (besti, bestj, bestsize) =
     (if alo < besti \<and> blo < bestj \<and> a ! (besti - 1) = b ! (bestj - 1)
      then extend_left a b alo blo (besti - 1, bestj - 1, bestsize + 1)
      else (besti, bestj, bestsize))"
  by pat_completeness auto
termination
  by (relation "measure (\<lambda>(a, b, alo, blo, besti, bestj, bestsize). besti)") auto

function extend_right :: "'a list \<Rightarrow> 'a list \<Rightarrow> nat \<Rightarrow> nat \<Rightarrow> match \<Rightarrow> match" where
  "extend_right a b ahi bhi (besti, bestj, bestsize) =
     (if besti + bestsize < ahi \<and> bestj + bestsize < bhi
         \<and> a ! (besti + bestsize) = b ! (bestj + bestsize)
      then extend_right a b ahi bhi (besti, bestj, bestsize + 1)
      else (besti, bestj, bestsize))"
  by pat_completeness auto
termination
  by (relation "measure (\<lambda>(a, b, ahi, bhi, besti, bestj, bestsize). ahi - (besti + bestsize))") auto

definition find_longest_match ::
  "'a list \<Rightarrow> 'a list \<Rightarrow> nat \<Rightarrow> nat \<Rightarrow> nat \<Rightarrow> nat \<Rightarrow> match" where
  \<comment> \<open>\<^verbatim>\<open>bjunk\<close> is empty, so the two loops that extend the block over junk
      elements never run and the two loops over non-junk elements test equality only\<close>
  "find_longest_match a b alo ahi blo bhi =
     extend_right a b ahi bhi
       (extend_left a b alo blo
          (flm_outer a b blo bhi [alo..<ahi] Map.empty (alo, blo, 0)))"

declare extend_left.simps [simp del] extend_right.simps [simp del]

text \<open>
  The worklist of \<^verbatim>\<open>get_matching_blocks\<close> ends because every block that
  \<^verbatim>\<open>find_longest_match\<close> returns lies inside the range it was asked for.
  \<open>best_ok\<close> says so for \<^verbatim>\<open>(besti, bestj, bestsize)\<close>, and \<open>j2len_ok\<close> bounds the
  run lengths that the dictionary \<^verbatim>\<open>j2len\<close> holds.
\<close>

definition best_ok :: "nat \<Rightarrow> nat \<Rightarrow> nat \<Rightarrow> nat \<Rightarrow> match \<Rightarrow> bool" where
  "best_ok alo ahi blo bhi m =
     (case m of (i, j, k) \<Rightarrow>
        (i = alo \<and> j = blo \<and> k = 0) \<or>
        (0 < k \<and> alo \<le> i \<and> blo \<le> j \<and> i + k \<le> ahi \<and> j + k \<le> bhi))"

definition j2len_ok :: "nat \<Rightarrow> nat \<Rightarrow> (nat \<rightharpoonup> nat) \<Rightarrow> bool" where
  "j2len_ok m blo j2len = (\<forall>j v. j2len j = Some v \<longrightarrow> v \<le> m \<and> blo \<le> j \<and> v \<le> j + 1 - blo)"

lemma j2lenget_le:
  assumes "j2len_ok m blo j2len" "blo \<le> j"
  shows "j2lenget j2len j + 1 \<le> m + 1 \<and> j2lenget j2len j + 1 \<le> j + 1 - blo"
proof (cases j)
  case 0
  then show ?thesis using assms by simp
next
  case (Suc j')
  show ?thesis
  proof (cases "j2len j'")
    case None
    then show ?thesis using Suc assms by simp
  next
    case (Some v)
    then have "v \<le> m" "blo \<le> j'" "v \<le> j' + 1 - blo"
      using assms(1) by (simp_all add: j2len_ok_def)
    then show ?thesis using Suc Some by simp
  qed
qed

lemma flm_inner_ok:
  assumes "j2len_ok m blo j2len" "alo + m \<le> i" "i < ahi"
    and "j2len_ok (m + 1) blo new" "best_ok alo ahi blo bhi best"
    and "flm_inner j2len i blo bhi js new best = (new', best')"
  shows "j2len_ok (m + 1) blo new' \<and> best_ok alo ahi blo bhi best'"
  using assms(4-6)
proof (induction js arbitrary: new best)
  case Nil
  then show ?case by simp
next
  case (Cons j js)
  obtain bi bj bs where best: "best = (bi, bj, bs)" by (cases best) auto
  show ?case
  proof (cases "j < blo")
    case True
    then show ?thesis using Cons best by simp
  next
    case nlt: False
    show ?thesis
    proof (cases "bhi \<le> j")
      case True
      then show ?thesis using Cons.prems nlt best by simp
    next
      case False
      define k where "k = j2lenget j2len j + 1"
      have kb: "k \<le> m + 1 \<and> k \<le> j + 1 - blo"
        unfolding k_def using j2lenget_le[OF assms(1)] nlt by simp
      have k0: "0 < k" by (simp add: k_def)
      let ?best = "if bs < k then (i + 1 - k, j + 1 - k, k) else (bi, bj, bs)"
      have n: "j2len_ok (m + 1) blo (new(j \<mapsto> k))"
        using Cons.prems(1) kb nlt by (auto simp: j2len_ok_def)
      have b: "best_ok alo ahi blo bhi ?best"
        using Cons.prems(2) best kb k0 nlt False assms(2,3)
        by (auto simp: best_ok_def)
      have "flm_inner j2len i blo bhi js (new(j \<mapsto> k)) ?best = (new', best')"
        using Cons.prems(3) best nlt False by (cases "bs < k") (simp_all add: k_def Let_def)
      from Cons.IH[OF n b this] show ?thesis .
    qed
  qed
qed

lemma j2len_ok_empty: "j2len_ok m blo Map.empty"
  by (simp add: j2len_ok_def)

lemma flm_outer_ok:
  assumes "j2len_ok m blo j2len" "alo + m \<le> lo" "best_ok alo ahi blo bhi best"
  shows "best_ok alo ahi blo bhi (flm_outer a b blo bhi [lo..<ahi] j2len best)"
  using assms
proof (induction "ahi - lo" arbitrary: lo m j2len best)
  case 0
  then show ?case by simp
next
  case (Suc n)
  then have lt: "lo < ahi" by simp
  obtain new' best' where r:
    "flm_inner j2len lo blo bhi (b2j b (a ! lo)) Map.empty best = (new', best')"
    by (cases "flm_inner j2len lo blo bhi (b2j b (a ! lo)) Map.empty best") auto
  have ok: "j2len_ok (m + 1) blo new' \<and> best_ok alo ahi blo bhi best'"
    using flm_inner_ok[OF Suc.prems(1) Suc.prems(2) lt j2len_ok_empty Suc.prems(3) r] .
  have "best_ok alo ahi blo bhi (flm_outer a b blo bhi [Suc lo..<ahi] new' best')"
    using Suc.hyps(1)[of "Suc lo" "m + 1" new' best'] Suc.hyps(2) ok Suc.prems(2) by simp
  then show ?case using lt r by (simp add: upt_conv_Cons)
qed

lemma extend_left_ok:
  "best_ok alo ahi blo bhi best \<Longrightarrow> best_ok alo ahi blo bhi (extend_left a b alo blo best)"
proof (induction a b alo blo best rule: extend_left.induct)
  case (1 a b alo blo besti bestj bestsize)
  show ?case
  proof (cases "alo < besti \<and> blo < bestj \<and> a ! (besti - 1) = b ! (bestj - 1)")
    case True
    have "best_ok alo ahi blo bhi (besti - 1, bestj - 1, bestsize + 1)"
      using 1(2) True by (auto simp: best_ok_def)
    from 1(1)[OF True this] show ?thesis using True by (subst extend_left.simps) simp
  next
    case False
    then show ?thesis using 1(2) by (subst extend_left.simps) auto
  qed
qed

lemma extend_right_ok:
  "best_ok alo ahi blo bhi best \<Longrightarrow> best_ok alo ahi blo bhi (extend_right a b ahi bhi best)"
proof (induction a b ahi bhi best rule: extend_right.induct)
  case (1 a b ahi bhi besti bestj bestsize)
  let ?c = "besti + bestsize < ahi \<and> bestj + bestsize < bhi
         \<and> a ! (besti + bestsize) = b ! (bestj + bestsize)"
  show ?case
  proof (cases ?c)
    case True
    have "best_ok alo ahi blo bhi (besti, bestj, bestsize + 1)"
      using 1(2) True by (auto simp: best_ok_def)
    from 1(1)[OF True this] show ?thesis using True by (subst extend_right.simps) simp
  next
    case False
    then show ?thesis using 1(2) by (subst extend_right.simps) auto
  qed
qed

lemma find_longest_match_ok:
  "best_ok alo ahi blo bhi (find_longest_match a b alo ahi blo bhi)"
  unfolding find_longest_match_def
  by (intro extend_right_ok extend_left_ok flm_outer_ok[where m = 0] j2len_ok_empty)
     (simp_all add: best_ok_def)

lemma find_longest_match_bounds:
  assumes "find_longest_match a b alo ahi blo bhi = (i, j, k)" "k \<noteq> 0"
  shows "alo \<le> i \<and> blo \<le> j \<and> i + k \<le> ahi \<and> j + k \<le> bhi"
  using find_longest_match_ok[of alo ahi blo bhi a b] assms by (simp add: best_ok_def)

text \<open>
  The loop \<^verbatim>\<open>while queue\<close> of \<^verbatim>\<open>get_matching_blocks\<close>. The head of the list is the
  end of the Python list: \<^verbatim>\<open>queue.pop()\<close> takes it and \<^verbatim>\<open>queue.append\<close> puts a
  range in front.
\<close>

function gmb_loop ::
  "'a list \<Rightarrow> 'a list \<Rightarrow> (nat \<times> nat \<times> nat \<times> nat) list \<Rightarrow> match list \<Rightarrow> match list" where
  "gmb_loop a b [] matching_blocks = matching_blocks"
| "gmb_loop a b ((alo, ahi, blo, bhi) # queue) matching_blocks =
     (case find_longest_match a b alo ahi blo bhi of (i, j, k) \<Rightarrow>
        if k \<noteq> 0 then
          gmb_loop a b
            ((if i + k < ahi \<and> j + k < bhi then [(i + k, ahi, j + k, bhi)] else []) @
             (if alo < i \<and> blo < j then [(alo, i, blo, j)] else []) @ queue)
            (matching_blocks @ [(i, j, k)])
        else gmb_loop a b queue matching_blocks)"
  by pat_completeness auto
termination
  by (relation "measure (\<lambda>(a, b, queue, mbs).
          sum_list (map (\<lambda>(alo, ahi, blo, bhi). 2 * (ahi - alo) + 1) queue))")
     (auto dest!: find_longest_match_bounds find_longest_match_bounds[OF sym])

declare gmb_loop.simps [simp del]

fun collapse :: "match \<Rightarrow> match list \<Rightarrow> match list" where
  \<comment> \<open>the loop that merges adjacent blocks; the first argument is
      \<^verbatim>\<open>(i1, j1, k1)\<close>\<close>
  "collapse (i1, j1, k1) [] = (if k1 \<noteq> 0 then [(i1, j1, k1)] else [])"
| "collapse (i1, j1, k1) ((i2, j2, k2) # rest) =
     (if i1 + k1 = i2 \<and> j1 + k1 = j2 then collapse (i1, j1, k1 + k2) rest
      else (if k1 \<noteq> 0 then [(i1, j1, k1)] else []) @ collapse (i2, j2, k2) rest)"

definition get_matching_blocks :: "'a list \<Rightarrow> 'a list \<Rightarrow> match list" where
  \<comment> \<open>\<^verbatim>\<open>matching_blocks.sort()\<close> orders the triples lexicographically\<close>
  "get_matching_blocks a b =
     collapse (0, 0, 0) (sort (gmb_loop a b [(0, length a, 0, length b)] []))
       @ [(length a, length b, 0)]"

fun opcodes_loop :: "nat \<Rightarrow> nat \<Rightarrow> match list \<Rightarrow> opcode list" where
  \<comment> \<open>the loop of \<^verbatim>\<open>get_opcodes\<close>; \<open>None\<close> is the empty tag\<close>
  "opcodes_loop i j [] = []"
| "opcodes_loop i j ((ai, bj, sz) # rest) =
     (let tag = (if i < ai \<and> j < bj then Some Replace
                 else if i < ai then Some Delete
                 else if j < bj then Some Insert
                 else None)
      in (case tag of Some t \<Rightarrow> [(t, i, ai, j, bj)] | None \<Rightarrow> [])
         @ (if sz \<noteq> 0 then [(Equal, ai, ai + sz, bj, bj + sz)] else [])
         @ opcodes_loop (ai + sz) (bj + sz) rest)"

definition get_opcodes :: "'a list \<Rightarrow> 'a list \<Rightarrow> opcode list" where
  "get_opcodes a b = opcodes_loop 0 0 (get_matching_blocks a b)"

fun trim_first :: "nat \<Rightarrow> opcode list \<Rightarrow> opcode list" where
  \<comment> \<open>\<^verbatim>\<open>if codes[0][0] == 'equal'\<close>\<close>
  "trim_first n ((Equal, i1, i2, j1, j2) # codes) =
     (Equal, max i1 (i2 - n), i2, max j1 (j2 - n), j2) # codes"
| "trim_first n codes = codes"

fun trim_last :: "nat \<Rightarrow> opcode list \<Rightarrow> opcode list" where
  \<comment> \<open>\<^verbatim>\<open>if codes[-1][0] == 'equal'\<close>\<close>
  "trim_last n [] = []"
| "trim_last n [(tag, i1, i2, j1, j2)] =
     (if tag = Equal then [(tag, i1, min i2 (i1 + n), j1, min j2 (j1 + n))]
      else [(tag, i1, i2, j1, j2)])"
| "trim_last n (c # codes) = c # trim_last n codes"

fun group_loop :: "nat \<Rightarrow> opcode list \<Rightarrow> opcode list \<Rightarrow> opcode list list" where
  \<comment> \<open>the loop of \<^verbatim>\<open>get_grouped_opcodes\<close> with the test after it; the last
      argument is \<^verbatim>\<open>group\<close>\<close>
  "group_loop n [] grp =
     (if grp \<noteq> [] \<and> \<not> (length grp = 1 \<and> fst (hd grp) = Equal) then [grp] else [])"
| "group_loop n ((tag, i1, i2, j1, j2) # codes) grp =
     (if tag = Equal \<and> n + n < i2 - i1
      then (grp @ [(tag, i1, min i2 (i1 + n), j1, min j2 (j1 + n))])
             # group_loop n codes [(tag, max i1 (i2 - n), i2, max j1 (j2 - n), j2)]
      else group_loop n codes (grp @ [(tag, i1, i2, j1, j2)]))"

definition get_grouped_opcodes :: "'a list \<Rightarrow> 'a list \<Rightarrow> nat \<Rightarrow> opcode list list" where
  "get_grouped_opcodes a b n =
     (let codes = get_opcodes a b;
          codes = (if codes = [] then [(Equal, 0, 1, 0, 1)] else codes)
      in group_loop n (trim_last n (trim_first n codes)) [])"

definition format_range_unified :: "nat \<Rightarrow> nat \<Rightarrow> string" where
  \<comment> \<open>\<^verbatim>\<open>_format_range_unified(start, stop)\<close>, computed on integers as in Python\<close>
  "format_range_unified start stop =
     (let beginning = int start + 1;
          len = int stop - int start
      in if len = 1 then str_int beginning
         else str_int (if len = 0 then beginning - 1 else beginning)
                @ '','' @ str_int len)"

definition slice :: "'a list \<Rightarrow> nat \<Rightarrow> nat \<Rightarrow> 'a list" where
  \<comment> \<open>\<^verbatim>\<open>xs[i:j]\<close> for indices that are not negative\<close>
  "slice xs i j = take (j - i) (drop i xs)"

fun opcode_lines :: "string list \<Rightarrow> string list \<Rightarrow> opcode \<Rightarrow> string list" where
  "opcode_lines a b (tag, i1, i2, j1, j2) =
     (if tag = Equal then map ((#) CHR '' '') (slice a i1 i2)
      else (if tag = Replace \<or> tag = Delete then map ((#) CHR ''-'') (slice a i1 i2) else [])
         @ (if tag = Replace \<or> tag = Insert then map ((#) CHR ''+'') (slice b j1 j2) else []))"

definition hunk_header :: "opcode list \<Rightarrow> string" where
  \<comment> \<open>the line \<^verbatim>\<open>@@ -file1_range +file2_range @@\<close> that \<^verbatim>\<open>unified_diff\<close> formats
      from \<^verbatim>\<open>first, last = group[0], group[-1]\<close>; \<^verbatim>\<open>lineterm\<close> is empty\<close>
  "hunk_header grp =
     (case (hd grp, last grp) of
        ((_, first1, _, first3, _), (_, _, last2, _, last4)) \<Rightarrow>
          ''@@ -'' @ format_range_unified first1 last2
            @ '' +'' @ format_range_unified first3 last4 @ '' @@'')"

definition unified_diff :: "string list \<Rightarrow> string list \<Rightarrow> nat \<Rightarrow> string list" where
  \<comment> \<open>\<^verbatim>\<open>unified_diff(a, b, lineterm="", n=n)\<close>: the file names and dates keep their
      default, the empty string, so the two lines before the first hunk are
      \<^verbatim>\<open>'--- '\<close> and \<^verbatim>\<open>'+++ '\<close>\<close>
  "unified_diff a b n =
     (let groups = get_grouped_opcodes a b n
      in if groups = [] then []
         else [''--- '', ''+++ '']
                @ concat (map (\<lambda>grp. hunk_header grp # concat (map (opcode_lines a b) grp))
                            groups))"

section \<open>The hook: \<^verbatim>\<open>check_for_xxx.py\<close>\<close>

definition parse_line_number :: "string \<Rightarrow> error + int" where
  "parse_line_number line =
     (if \<not> startswith line ''@@'' then Inl Not_a_unified_diff_header
      else let parts = split_chr CHR '' '' line
           in if length parts \<noteq> 4 then Inl Not_a_unified_diff_header
              else py_int (hd (split_chr CHR '','' (parts ! 2))))"

definition message :: "string \<Rightarrow> int \<Rightarrow> string" where
  \<comment> \<open>\<^verbatim>\<open>f"Debug marker detected at {filename}:{line_number}"\<close>\<close>
  "message filename line_number =
     ''Debug marker detected at '' @ filename @ '':'' @ str_int line_number"

fun collect_loop :: "string \<Rightarrow> string list \<Rightarrow> int \<Rightarrow> string list \<Rightarrow> error + string list" where
  \<comment> \<open>the loop \<^verbatim>\<open>for line in diff_result\<close> of \<^verbatim>\<open>collect_errors\<close>, from the current
      \<^verbatim>\<open>line_number\<close> and \<^verbatim>\<open>errors\<close>; an exception of \<^verbatim>\<open>parse_line_number\<close> ends it\<close>
  "collect_loop filename [] line_number errors = Inr errors"
| "collect_loop filename (line # rest) line_number errors =
     (case (if startswith line ''@@'' then parse_line_number line else Inr line_number) of
        Inl e \<Rightarrow> Inl e
      | Inr line_number \<Rightarrow>
          if \<not> startswith line ''+'' \<or> strip line = ''+++''
          then collect_loop filename rest line_number errors
          else collect_loop filename rest
                 (if startswith line ''+'' then line_number + 1 else line_number)
                 (if contains ''# xxx'' (lower line)
                  then errors @ [message filename line_number] else errors))"

definition collect_errors :: "string \<Rightarrow> string \<Rightarrow> string \<Rightarrow> error + string list" where
  \<comment> \<open>the first sequence handed to \<^verbatim>\<open>unified_diff\<close> is \<^verbatim>\<open>data_b.splitlines()\<close>, the
      second \<^verbatim>\<open>data_a.splitlines()\<close>\<close>
  "collect_errors filename data_a data_b =
     collect_loop filename (unified_diff (splitlines data_b) (splitlines data_a) 0) 1 []"

text \<open>
  \<^verbatim>\<open>main\<close> reads the staged changes through GitPython. What it reads is the input
  of the model: the list of \<^verbatim>\<open>Diff\<close> objects that \<^verbatim>\<open>repo.index.diff(against)\<close>
  returns. A blob carries its hash (GitPython compares blobs by \<^verbatim>\<open>binsha\<close>) and its
  bytes decoded as UTF-8, \<open>None\<close> when they do not decode. The result of \<^verbatim>\<open>main\<close> is
  the list of lines printed and the value returned.
\<close>

record blob =
  binsha :: string
  decoded :: "string option"

record diff =
  a_blob :: "blob option"
  b_blob :: "blob option"
  b_path :: "string option"

definition read_blob :: "blob option \<Rightarrow> string" where
  "read_blob blob =
     (case blob of
        None \<Rightarrow> []
      | Some bl \<Rightarrow> (case decoded bl of Some text \<Rightarrow> text | None \<Rightarrow> []))"

definition blob_eq :: "blob option \<Rightarrow> blob option \<Rightarrow> bool" where
  \<comment> \<open>\<^verbatim>\<open>diff.a_blob == diff.b_blob\<close>\<close>
  "blob_eq x y =
     (case (x, y) of
        (None, None) \<Rightarrow> True
      | (Some p, Some q) \<Rightarrow> binsha p = binsha q
      | _ \<Rightarrow> False)"

fun main_loop :: "diff list \<Rightarrow> string list \<Rightarrow> error + string list" where
  \<comment> \<open>the loop \<^verbatim>\<open>for diff in diff_result\<close>\<close>
  "main_loop [] errors = Inr errors"
| "main_loop (d # ds) errors =
     (if blob_eq (a_blob d) (b_blob d) \<or> b_blob d = None then main_loop ds errors
      else let data_a = read_blob (a_blob d);
               data_b = read_blob (b_blob d)
           in case collect_errors (case b_path d of Some p \<Rightarrow> p | None \<Rightarrow> []) data_a data_b of
                Inl e \<Rightarrow> Inl e
              | Inr es \<Rightarrow> main_loop ds (errors @ es))"

definition main :: "diff list \<Rightarrow> error + (string list \<times> int)" where
  "main diff_result =
     (case main_loop diff_result [] of
        Inl e \<Rightarrow> Inl e
      | Inr errors \<Rightarrow> if errors \<noteq> [] then Inr (errors, 1) else Inr ([], 0))"

section \<open>Numbers and strings\<close>

lemma of_char_digit: "d < 10 \<Longrightarrow> (of_char (char_of (48 + d :: nat)) :: nat) = 48 + d"
  by simp

lemma is_digit_char_of: "d < 10 \<Longrightarrow> is_digit (char_of (48 + d :: nat))"
  by (simp add: is_digit_def)

lemma digit_val_char_of: "d < 10 \<Longrightarrow> digit_val (char_of (48 + d :: nat)) = d"
  by (simp add: digit_val_def)

lemma str_nat_digits: "c \<in> set (str_nat n) \<Longrightarrow> is_digit c"
proof (induction n rule: str_nat.induct)
  case (1 n)
  show ?case
  proof (cases "n < 10")
    case True
    then show ?thesis using 1(2) by (subst (asm) str_nat.simps) (auto simp: is_digit_char_of)
  next
    case False
    then have "c \<in> set (str_nat (n div 10)) \<or> c = char_of (48 + n mod 10)"
      using 1(2) by (subst (asm) str_nat.simps) auto
    then show ?thesis using 1(1)[OF False] by (auto simp: is_digit_char_of)
  qed
qed

lemma str_nat_nonempty: "str_nat n \<noteq> []"
  by (subst str_nat.simps) simp

lemma str_nat_value: "foldl (\<lambda>acc d. 10 * acc + d) 0 (map digit_val (str_nat n)) = n"
proof (induction n rule: str_nat.induct)
  case (1 n)
  show ?case
  proof (cases "n < 10")
    case True
    then show ?thesis by (subst str_nat.simps) (simp add: digit_val_char_of)
  next
    case False
    then show ?thesis using 1[OF False]
      by (subst str_nat.simps) (simp add: digit_val_char_of)
  qed
qed

lemma str_nat_length: "n < 10 ^ k \<Longrightarrow> 0 < k \<Longrightarrow> length (str_nat n) \<le> k"
proof (induction n arbitrary: k rule: str_nat.induct)
  case (1 n)
  show ?case
  proof (cases "n < 10")
    case True
    then show ?thesis using 1(3) by (subst str_nat.simps) simp
  next
    case False
    obtain k' where k: "k = Suc k'" using 1(3) by (cases k) auto
    have "k' \<noteq> 0" using False 1(2) k by (cases k') auto
    moreover have "n div 10 < 10 ^ k'" using 1(2) k by (simp add: less_mult_imp_div_less mult.commute)
    ultimately have "length (str_nat (n div 10)) \<le> k'" using 1(1)[OF False, of k'] by simp
    then show ?thesis using False k by (subst str_nat.simps) simp
  qed
qed

lemma int_digits_all:
  "\<forall>c\<in>set s. is_digit c \<Longrightarrow> s \<noteq> [] \<or> p \<Longrightarrow> int_digits p s = Some (map digit_val s)"
  by (induction s arbitrary: p) auto

lemma is_digit_not_space: "is_digit c \<Longrightarrow> \<not> int_space c"
  by (auto simp: is_digit_def int_space_def)

lemma is_digit_not_sign: "is_digit c \<Longrightarrow> c \<noteq> CHR ''+'' \<and> c \<noteq> CHR ''-'' \<and> c \<noteq> CHR '','' \<and> c \<noteq> CHR '' ''"
  by (auto simp: is_digit_def)

lemma dropWhile_id: "s \<noteq> [] \<Longrightarrow> \<not> P (hd s) \<Longrightarrow> dropWhile P s = s"
  by (cases s) auto

lemma py_int_digits:
  assumes "\<forall>c\<in>set s. is_digit c" "s \<noteq> []" "length s \<le> int_max_str_digits"
  shows "py_int s = Inr (int (foldl (\<lambda>acc d. 10 * acc + d) 0 (map digit_val s)))"
    and "py_int (CHR ''+'' # s) = Inr (int (foldl (\<lambda>acc d. 10 * acc + d) 0 (map digit_val s)))"
proof -
  have h: "\<not> int_space (hd s)" "\<not> int_space (last s)"
    using assms(1,2) by (auto simp: is_digit_not_space)
  have l: "\<not> int_space (hd (rev s))" using h(2) assms(2) by (simp add: hd_rev)
  have hs: "hd s \<noteq> CHR ''+''" "hd s \<noteq> CHR ''-''"
    using assms(1,2) is_digit_not_sign[of "hd s"] by auto
  have d1: "dropWhile int_space s = s" using h(1) assms(2) by (simp add: dropWhile_id)
  have d2: "dropWhile int_space (rev s) = rev s" using l assms(2) by (simp add: dropWhile_id)
  have ps: "\<not> int_space CHR ''+''" by (simp add: int_space_def)
  have d3: "dropWhile int_space (rev s @ ''+'') = rev s @ ''+''"
    using l assms(2) by (cases "rev s") auto
  show "py_int s = Inr (int (foldl (\<lambda>acc d. 10 * acc + d) 0 (map digit_val s)))"
    using assms hs by (simp add: py_int_def d1 d2 int_digits_all Let_def)
  show "py_int (CHR ''+'' # s) = Inr (int (foldl (\<lambda>acc d. 10 * acc + d) 0 (map digit_val s)))"
    using assms by (simp add: py_int_def ps d3 int_digits_all Let_def)
qed

lemma py_int_str_nat:
  assumes "n < 10 ^ 4300"
  shows "py_int (str_nat n) = Inr (int n)" "py_int (CHR ''+'' # str_nat n) = Inr (int n)"
proof -
  have "length (str_nat n) \<le> int_max_str_digits"
    using str_nat_length[OF assms] by (simp add: int_max_str_digits_def)
  then show "py_int (str_nat n) = Inr (int n)" "py_int (CHR ''+'' # str_nat n) = Inr (int n)"
    using py_int_digits[of "str_nat n"] str_nat_digits str_nat_nonempty
    by (simp_all add: str_nat_value)
qed

lemma py_int_no_digit:
  assumes "\<forall>c\<in>set s. \<not> is_digit c"
  shows "py_int s = Inl Invalid_int_literal"
proof -
  have nd: "int_digits False t = None" if "\<forall>c\<in>set t. \<not> is_digit c" for t
    using that by (cases t) auto
  define t where "t = rev (dropWhile int_space (rev (dropWhile int_space s)))"
  have sub: "set t \<subseteq> set s"
    unfolding t_def by (auto dest!: set_dropWhileD)
  define body where "body = (if t \<noteq> [] \<and> (hd t = CHR ''+'' \<or> hd t = CHR ''-'') then tl t else t)"
  have "set (tl t) \<subseteq> set t" by (cases t) auto
  then have "set body \<subseteq> set t" by (auto simp: body_def)
  then have "\<forall>c\<in>set body. \<not> is_digit c" using sub assms by blast
  from nd[OF this] show ?thesis
    unfolding py_int_def Let_def t_def[symmetric] body_def[symmetric] by simp
qed

lemma split_chr_nonempty: "split_chr sep s \<noteq> []"
  by (cases s) auto

lemma split_chr_none: "sep \<notin> set s \<Longrightarrow> split_chr sep s = [s]"
  by (induction s) auto

lemma split_chr_append: "sep \<notin> set xs \<Longrightarrow> split_chr sep (xs @ sep # ys) = xs # split_chr sep ys"
  by (induction xs) auto

lemma hd_split_chr: "hd (split_chr sep s) = takeWhile (\<lambda>c. c \<noteq> sep) s"
  by (induction s) auto

definition is_upper :: "nat \<Rightarrow> bool" where
  "is_upper n = ((65 \<le> n \<and> n \<le> 90) \<or> (192 \<le> n \<and> n \<le> 222 \<and> n \<noteq> 215))"

lemma lower_chr_eq_iff:
  "lower_chr c = t \<longleftrightarrow>
     (if is_upper (of_char c) then (of_char c :: nat) + 32 = of_char t else c = t)"
proof (cases "is_upper (of_char c)")
  case True
  then have lt: "(of_char c :: nat) + 32 < 2 ^ 8" by (auto simp: is_upper_def)
  have "lower_chr c = char_of ((of_char c :: nat) + 32)"
    using True by (auto simp: lower_chr_def is_upper_def Let_def)
  moreover have "char_of ((of_char c :: nat) + 32) = t \<longleftrightarrow> (of_char c :: nat) + 32 = of_char t"
    unfolding char_of_eq_iff using lt by (simp only: take_bit_nat_eq_self)
  ultimately show ?thesis using True by simp
next
  case False
  then have "lower_chr c = c" by (auto simp: lower_chr_def is_upper_def Let_def)
  then show ?thesis using False by simp
qed

lemma of_char_X: "(of_char c :: nat) = 88 \<longleftrightarrow> c = CHR ''X''"
proof -
  have e: "(88::nat) = of_char CHR ''X''" by simp
  show ?thesis by (subst e) (rule of_char_eq_iff)
qed

lemma lower_chr_eq_x: "lower_chr c = CHR ''x'' \<longleftrightarrow> c = CHR ''x'' \<or> c = CHR ''X''"
proof (cases "is_upper (of_char c)")
  case True
  then have "c \<noteq> CHR ''x''" by (auto simp: is_upper_def)
  moreover have "lower_chr c = CHR ''x'' \<longleftrightarrow> (of_char c :: nat) = 88"
    using True by (simp add: lower_chr_eq_iff)
  ultimately show ?thesis by (simp add: of_char_X)
next
  case False
  then have "c \<noteq> CHR ''X''" by (auto simp: is_upper_def)
  then show ?thesis using False by (simp add: lower_chr_eq_iff)
qed

lemma lower_chr_eq_hash: "lower_chr c = CHR ''#'' \<longleftrightarrow> c = CHR ''#''"
proof (cases "is_upper (of_char c)")
  case True
  then have "c \<noteq> CHR ''#''" by (auto simp: is_upper_def)
  then show ?thesis using True by (auto simp: lower_chr_eq_iff is_upper_def)
next
  case False
  then show ?thesis by (simp add: lower_chr_eq_iff)
qed

lemma lower_chr_eq_space: "lower_chr c = CHR '' '' \<longleftrightarrow> c = CHR '' ''"
proof (cases "is_upper (of_char c)")
  case True
  then have "c \<noteq> CHR '' ''" by (auto simp: is_upper_def)
  then show ?thesis using True by (auto simp: lower_chr_eq_iff is_upper_def)
next
  case False
  then show ?thesis by (simp add: lower_chr_eq_iff)
qed

section \<open>The lines that reach the marker test\<close>

text \<open>
  \<open>attributed\<close> runs the loop of \<^verbatim>\<open>collect_errors\<close> and records, instead of the
  messages, every line that passes the test
  \<^verbatim>\<open>if not line.startswith("+") or line.strip() == "+++": continue\<close>, with the
  value \<^verbatim>\<open>line_number\<close> has there. \<open>diagnostics\<close> are the messages of the recorded
  lines that hold the marker, and \<open>collect_loop_attributed\<close> shows that the loop
  returns exactly those.
\<close>

fun attributed :: "string list \<Rightarrow> int \<Rightarrow> error + (int \<times> string) list" where
  "attributed [] line_number = Inr []"
| "attributed (line # rest) line_number =
     (case (if startswith line ''@@'' then parse_line_number line else Inr line_number) of
        Inl e \<Rightarrow> Inl e
      | Inr line_number \<Rightarrow>
          if \<not> startswith line ''+'' \<or> strip line = ''+++''
          then attributed rest line_number
          else (case attributed rest (line_number + 1) of
                  Inl e \<Rightarrow> Inl e
                | Inr pairs \<Rightarrow> Inr ((line_number, line) # pairs)))"

definition diagnostics :: "string \<Rightarrow> (int \<times> string) list \<Rightarrow> string list" where
  "diagnostics filename pairs =
     map (\<lambda>(line_number, line). message filename line_number)
       (filter (\<lambda>(line_number, line). contains ''# xxx'' (lower line)) pairs)"

lemma collect_loop_attributed:
  "collect_loop filename lines n errors =
     (case attributed lines n of
        Inl e \<Rightarrow> Inl e
      | Inr pairs \<Rightarrow> Inr (errors @ diagnostics filename pairs))"
proof (induction lines arbitrary: n errors)
  case Nil
  then show ?case by (simp add: diagnostics_def)
next
  case (Cons line rest)
  show ?case
  proof (cases "if startswith line ''@@'' then parse_line_number line else Inr n")
    case (Inl e)
    then show ?thesis by simp
  next
    case (Inr m)
    show ?thesis
    proof (cases "\<not> startswith line ''+'' \<or> strip line = ''+++''")
      case True
      then show ?thesis using Inr Cons.IH by simp
    next
      case False
      then show ?thesis using Inr Cons.IH
        by (cases "attributed rest (m + 1)") (auto simp: diagnostics_def)
    qed
  qed
qed

section \<open>Hunk headers\<close>

text \<open>
  C8: \<^verbatim>\<open>parse_line_number("@@ -14,0 +20,3 @@")\<close> is 20 and
  \<^verbatim>\<open>parse_line_number("@@ -0,0 +1 @@")\<close> is 1.
\<close>

theorem parse_line_number_examples:
  "parse_line_number ''@@ -14,0 +20,3 @@'' = Inr 20
   \<and> parse_line_number ''@@ -0,0 +1 @@'' = Inr 1"
  by code_simp

end
